theory Spec2Isabelle
  imports Main
begin

section \<open>Values exchanged between the contexts and with the service\<close>

text \<open>
  The extension has two scripts that hold state: the background service worker
  (\<^verbatim>\<open>background.js\<close>) and the offscreen document (\<^verbatim>\<open>offscreen.js\<close>).
  Each runs single-threaded; an event handler runs to completion. Every module-level
  \<^verbatim>\<open>let\<close> of a script is a field of a record, every handler a function from
  the record to the updated record. What the platform decides (whether a promise
  resolves or rejects, which frames arrive and when, what an encoder has gathered) is
  an explicit argument of the handler.
\<close>

text \<open>A field of a parsed JSON object: absent, a string, or a list of strings.\<close>

datatype jsval = JUndefined | JString string | JArray "string list"

text \<open>The object literal built by \<^verbatim>\<open>handleWebSocketMessage\<close> (case \<^verbatim>\<open>'notes'\<close>)
  and by the return statement of \<^verbatim>\<open>stopRecording\<close>: exactly five fields.\<close>

record notes_doc =
  summary :: jsval
  key_points :: jsval
  action_items :: jsval
  decisions :: jsval
  questions :: jsval

text \<open>The parsed \<^verbatim>\<open>data\<close> of a \<^verbatim>\<open>notes\<close> or \<^verbatim>\<open>final_notes\<close> frame: the five
  fields the code reads, and whatever else the object carries.\<close>

record frame_data = notes_doc +
  other_fields :: "(string \<times> jsval) list"

definition five_fields :: "frame_data \<Rightarrow> notes_doc" where
  "five_fields d = \<lparr>summary = summary d, key_points = key_points d,
     action_items = action_items d, decisions = decisions d, questions = questions d\<rparr>"

text \<open>
  Frames pushed by the service, after \<^verbatim>\<open>JSON.parse\<close>, by their \<^verbatim>\<open>type\<close>.
  \<open>Error_frame m\<close> carries \<^verbatim>\<open>data.message\<close> (\<open>None\<close> when the field is absent).
  \<open>Transcript_frame t x\<close> carries \<^verbatim>\<open>data.start\<close> already rendered by
  \<^verbatim>\<open>toFixed(1)\<close> (\<open>None\<close> when absent) and \<^verbatim>\<open>data.text\<close>.
\<close>

datatype server_frame =
    Auth_success
  | Error_frame "string option"
  | Transcript_frame "string option" string
  | Notes_frame frame_data
  | Final_notes frame_data
  | Pong
  | Unknown_frame

text \<open>Frames the worker sends on the socket.\<close>

datatype client_frame =
    Auth_frame "string option"
  | Audio_frame string string
  | Stop_frame
  | Ping_frame

text \<open>Messages of \<^verbatim>\<open>broadcastToPopup\<close>.\<close>

datatype popup_msg =
    STATUS string
  | ERROR "string option"
  | CONNECTION_STATUS bool
  | TRANSCRIPT string "string option"
  | NOTES_UPDATE notes_doc

text \<open>Messages the worker addresses to the offscreen document.\<close>

datatype offscreen_msg = START_CAPTURE string | STOP_CAPTURE

text \<open>The reply of the offscreen listener: \<^verbatim>\<open>{success, error}\<close>.\<close>

record capture_reply =
  success :: bool
  error_text :: "string option"

text \<open>An awaited platform promise: it resolves with a value or rejects with an
  error whose \<^verbatim>\<open>message\<close> is the string.\<close>

datatype 'a outcome = Resolves 'a | Rejects string

text \<open>What a command handler passes to \<^verbatim>\<open>sendResponse\<close>.\<close>

datatype reply =
    Failure string
  | Started
  | Stopped "notes_doc option"

datatype ready_state = CONNECTING | OPEN | CLOSING | CLOSED

section \<open>The background service worker\<close>

text \<open>\<^verbatim>\<open>chrome.storage.local\<close>, the three session keys. An absent key reads as the
  empty list, \<open>None\<close> (which is also \<^verbatim>\<open>null\<close>) and \<open>False\<close>.\<close>

record local_store =
  st_transcript :: "string list"
  st_notes :: "notes_doc option"
  st_isRecording :: bool

text \<open>
  The module-level variables of \<^verbatim>\<open>background.js\<close> (\<open>ws\<close> is \<open>None\<close> for
  \<^verbatim>\<open>null\<close>, else the \<^verbatim>\<open>readyState\<close> of the socket it refers to), followed by the
  platform state the worker acts on: the store, whether an offscreen document exists,
  and the frames and messages it has sent, oldest first.
\<close>

record bg =
  isRecording :: bool
  ws :: "ready_state option"
  apiKey :: "string option"
  transcriptLines :: "string list"
  currentNotes :: "notes_doc option"
  wsAuthResolved :: bool
  local_storage :: local_store
  offscreen_document :: bool
  wire :: "client_frame list"
  popup :: "popup_msg list"
  offscreen_sent :: "offscreen_msg list"

definition broadcastToPopup :: "popup_msg \<Rightarrow> bg \<Rightarrow> bg" where
  "broadcastToPopup m s = s\<lparr>popup := popup s @ [m]\<rparr>"

definition ws_send :: "client_frame \<Rightarrow> bg \<Rightarrow> bg" where
  "ws_send f s = s\<lparr>wire := wire s @ [f]\<rparr>"

text \<open>\<^verbatim>\<open>String.prototype.includes\<close>.\<close>

fun starts_with :: "string \<Rightarrow> string \<Rightarrow> bool" where
  "starts_with s [] = True"
| "starts_with [] (c # cs) = False"
| "starts_with (x # xs) (c # cs) = (x = c \<and> starts_with xs cs)"

fun js_includes :: "string \<Rightarrow> string \<Rightarrow> bool" where
  "js_includes [] sub = (sub = [])"
| "js_includes (x # xs) sub = (starts_with (x # xs) sub \<or> js_includes xs sub)"

text \<open>
  \<^verbatim>\<open>handleWebSocketMessage(data, authResolver)\<close>. The second component is the call
  made to \<^verbatim>\<open>authResolver\<close>, if any. An \<^verbatim>\<open>error\<close> frame without a message and with
  the guard clear throws at \<^verbatim>\<open>data.message.includes\<close>, after the broadcast: the
  handler ends there. \<^verbatim>\<open>final_notes\<close> has no case in the switch.
\<close>

fun handleWebSocketMessage :: "server_frame \<Rightarrow> bg \<Rightarrow> bg \<times> bool option" where
  "handleWebSocketMessage Auth_success s =
     (let s1 = broadcastToPopup (CONNECTION_STATUS True) s in
      if \<not> wsAuthResolved s1 then (s1\<lparr>wsAuthResolved := True\<rparr>, Some True)
      else (s1, None))"
| "handleWebSocketMessage (Error_frame m) s =
     (let s1 = broadcastToPopup (ERROR m) s in
      case m of
        None \<Rightarrow> (s1, None)
      | Some msg \<Rightarrow>
          if \<not> wsAuthResolved s1 \<and> js_includes msg ''API key''
          then (s1\<lparr>wsAuthResolved := True\<rparr>, Some False)
          else (s1, None))"
| "handleWebSocketMessage (Transcript_frame start txt) s =
     (let line = ''['' @ (case start of Some t \<Rightarrow> t | None \<Rightarrow> ''0.0'') @ ''s] '' @ txt;
          s1 = s\<lparr>transcriptLines := transcriptLines s @ [line]\<rparr>;
          s2 = s1\<lparr>local_storage := (local_storage s1)\<lparr>st_transcript := transcriptLines s1\<rparr>\<rparr>
      in (broadcastToPopup (TRANSCRIPT txt start) s2, None))"
| "handleWebSocketMessage (Notes_frame d) s =
     (let s1 = s\<lparr>currentNotes := Some (five_fields d)\<rparr>;
          s2 = s1\<lparr>local_storage := (local_storage s1)\<lparr>st_notes := currentNotes s1\<rparr>\<rparr>
      in (broadcastToPopup (NOTES_UPDATE (five_fields d)) s2, None))"
| "handleWebSocketMessage (Final_notes d) s = (s, None)"
| "handleWebSocketMessage Pong s = (s, None)"
| "handleWebSocketMessage Unknown_frame s = (s, None)"

text \<open>
  The events of the socket \<open>ws\<close> refers to, and the 10 s timer that
  \<^verbatim>\<open>connectWebSocket\<close> sets. \<open>Ws_message None\<close> is a payload on which
  \<^verbatim>\<open>JSON.parse\<close> throws. The platform sets \<^verbatim>\<open>readyState\<close> before it calls
  \<^verbatim>\<open>onopen\<close> and \<^verbatim>\<open>onclose\<close>. Events of a socket that \<open>ws\<close> no longer refers to
  are not part of the model.
\<close>

datatype ws_event =
    Ws_open
  | Ws_message "server_frame option"
  | Ws_error
  | Ws_close
  | Connect_timeout

text \<open>A promise that has one boolean result: \<open>None\<close> while pending. Only the first
  \<^verbatim>\<open>resolve\<close> has an effect.\<close>

definition resolve :: "bool \<Rightarrow> bool option \<Rightarrow> bool option" where
  "resolve b p = (case p of None \<Rightarrow> Some b | Some r \<Rightarrow> Some r)"

text \<open>
  One event, run through the handlers that \<^verbatim>\<open>connectWebSocket\<close> installs; \<open>p\<close> is
  the promise the attempt returned. With \<open>ws\<close> null, \<^verbatim>\<open>onopen\<close> and the timer callback
  throw at \<^verbatim>\<open>ws.send\<close> and \<^verbatim>\<open>ws.readyState\<close> and change nothing.
\<close>

fun ws_event_step :: "ws_event \<Rightarrow> bg \<times> bool option \<Rightarrow> bg \<times> bool option" where
  "ws_event_step Ws_open (s, p) =
     (case ws s of
        None \<Rightarrow> (s, p)
      | Some _ \<Rightarrow> (ws_send (Auth_frame (apiKey s)) (s\<lparr>ws := Some OPEN\<rparr>), p))"
| "ws_event_step (Ws_message None) (s, p) = (s, p)"
| "ws_event_step (Ws_message (Some d)) (s, p) =
     (case handleWebSocketMessage d s of
        (s1, None) \<Rightarrow> (s1, p)
      | (s1, Some b) \<Rightarrow> (s1, resolve b p))"
| "ws_event_step Ws_error (s, p) =
     (broadcastToPopup (ERROR (Some ''WebSocket connection failed'')) s, resolve False p)"
| "ws_event_step Ws_close (s, p) =
     (broadcastToPopup (CONNECTION_STATUS False)
        (case ws s of None \<Rightarrow> s | Some _ \<Rightarrow> s\<lparr>ws := Some CLOSED\<rparr>), p)"
| "ws_event_step Connect_timeout (s, p) =
     (case ws s of
        None \<Rightarrow> (s, p)
      | Some r \<Rightarrow> if r \<noteq> OPEN then (s, resolve False p) else (s, p))"

text \<open>All of a list of events, in order.\<close>

fun ws_events :: "ws_event list \<Rightarrow> bg \<times> bool option \<Rightarrow> bg \<times> bool option" where
  "ws_events [] sp = sp"
| "ws_events (e # es) sp = ws_events es (ws_event_step e sp)"

text \<open>
  \<^verbatim>\<open>await connectWebSocket()\<close>: the events are run until the promise is resolved;
  \<open>None\<close> when they run out first, that is, when the promise stays pending for good
  under the events \<open>evs\<close>. \<open>ctor_ok\<close> is false when \<^verbatim>\<open>new WebSocket\<close> throws, which the
  \<^verbatim>\<open>catch\<close> turns into \<^verbatim>\<open>resolve(false)\<close>.
\<close>

fun await_connect :: "ws_event list \<Rightarrow> bg \<Rightarrow> bg \<times> bool option" where
  "await_connect [] s = (s, None)"
| "await_connect (e # es) s =
     (case ws_event_step e (s, None) of
        (s1, Some b) \<Rightarrow> (s1, Some b)
      | (s1, None) \<Rightarrow> await_connect es s1)"

definition connectWebSocket :: "bool \<Rightarrow> ws_event list \<Rightarrow> bg \<Rightarrow> bg \<times> bool option" where
  "connectWebSocket ctor_ok evs s =
     (if ctor_ok then await_connect evs (s\<lparr>ws := Some CONNECTING\<rparr>) else (s, Some False))"

definition setupOffscreenDocument :: "unit outcome \<Rightarrow> bg \<Rightarrow> string + bg" where
  "setupOffscreenDocument created s =
     (if offscreen_document s then Inr s
      else case created of
             Rejects e \<Rightarrow> Inl e
           | Resolves _ \<Rightarrow> Inr (s\<lparr>offscreen_document := True\<rparr>))"

definition closeOffscreenDocument :: "unit outcome \<Rightarrow> bg \<Rightarrow> string + bg" where
  "closeOffscreenDocument closed s =
     (if offscreen_document s
      then case closed of
             Rejects e \<Rightarrow> Inl e
           | Resolves _ \<Rightarrow> Inr (s\<lparr>offscreen_document := False\<rparr>)
      else Inr s)"

text \<open>
  What the platform does during one \<^verbatim>\<open>startRecording\<close>: the result of
  \<^verbatim>\<open>chrome.tabs.query\<close> (the id of the first tab, if any), whether the socket can be
  constructed and the events that follow, the result of
  \<^verbatim>\<open>chrome.offscreen.createDocument\<close>, of \<^verbatim>\<open>chrome.tabCapture.getMediaStreamId\<close>
  and of the \<^verbatim>\<open>START_CAPTURE\<close> message.
\<close>

record start_env =
  active_tab :: "nat option outcome"
  socket_ctor_ok :: bool
  connect_events :: "ws_event list"
  create_document :: "unit outcome"
  media_stream_id :: "string outcome"
  start_capture_reply :: "capture_reply outcome"

text \<open>
  \<^verbatim>\<open>startRecording\<close>. The reply is \<open>None\<close> when the function never returns (the
  connect promise stays pending). The value the \<^verbatim>\<open>START_CAPTURE\<close> message resolves
  with is not read.
\<close>

definition startRecording :: "start_env \<Rightarrow> bg \<Rightarrow> bg \<times> reply option" where
  "startRecording env s =
     (if isRecording s then (s, Some (Failure ''Already recording''))
      else case active_tab env of
        Rejects e \<Rightarrow> (s, Some (Failure e))
      | Resolves None \<Rightarrow> (s, Some (Failure ''No active tab''))
      | Resolves (Some tab) \<Rightarrow>
         (case connectWebSocket (socket_ctor_ok env) (connect_events env) s of
            (s1, None) \<Rightarrow> (s1, None)
          | (s1, Some False) \<Rightarrow> (s1, Some (Failure ''Failed to connect to API server''))
          | (s1, Some True) \<Rightarrow>
             (case setupOffscreenDocument (create_document env) s1 of
                Inl e \<Rightarrow> (s1, Some (Failure e))
              | Inr s2 \<Rightarrow>
                 (case media_stream_id env of
                    Rejects e \<Rightarrow> (s2, Some (Failure e))
                  | Resolves sid \<Rightarrow>
                     (let s3 = s2\<lparr>offscreen_sent := offscreen_sent s2 @ [START_CAPTURE sid]\<rparr> in
                      case start_capture_reply env of
                        Rejects e \<Rightarrow> (s3, Some (Failure e))
                      | Resolves _ \<Rightarrow>
                         (let s4 = s3\<lparr>isRecording := True, transcriptLines := [],
                                       currentNotes := None,
                                       local_storage := \<lparr>st_transcript = [], st_notes = None,
                                                          st_isRecording = True\<rparr>\<rparr>
                          in (broadcastToPopup (STATUS ''Recording...'') s4, Some Started)))))))"

text \<open>
  The socket's events while \<^verbatim>\<open>stopRecording\<close> waits, each with the delay in
  milliseconds since the one before (since the wait began, for the first). The promise
  of the wait is resolved by the first \<^verbatim>\<open>final_notes\<close> message, or by the timer set
  for 10000 ms, whichever comes first; an event due at 10000 ms or later comes after the
  timer. Every message delivered goes through \<^verbatim>\<open>ws.onmessage\<close> (installed first)
  and then through the listener of the wait. The result is the state, the value the
  promise resolves with, and the milliseconds waited.
\<close>

fun final_notes_of :: "ws_event \<Rightarrow> frame_data option" where
  "final_notes_of (Ws_message (Some (Final_notes d))) = Some d"
| "final_notes_of e = None"

fun await_final_notes ::
  "nat \<Rightarrow> (nat \<times> ws_event) list \<Rightarrow> bg \<Rightarrow> bg \<times> frame_data option \<times> nat" where
  "await_final_notes elapsed [] s = (s, None, 10000)"
| "await_final_notes elapsed ((d, e) # es) s =
     (if 10000 \<le> elapsed + d then (s, None, 10000)
      else let s1 = fst (ws_event_step e (s, Some True)) in
        case final_notes_of e of
          Some notes \<Rightarrow> (s1, Some notes, elapsed + d)
        | None \<Rightarrow> await_final_notes (elapsed + d) es s1)"

text \<open>The block \<^verbatim>\<open>if (ws && ws.readyState === WebSocket.OPEN) { ... }\<close> of
  \<^verbatim>\<open>stopRecording\<close>: the stop frame, then the wait.\<close>

definition request_final_notes ::
  "(nat \<times> ws_event) list \<Rightarrow> bg \<Rightarrow> bg \<times> frame_data option \<times> nat" where
  "request_final_notes evs s =
     (if ws s = Some OPEN then await_final_notes 0 evs (ws_send Stop_frame s)
      else (s, None, 0))"

text \<open>\<^verbatim>\<open>if (ws) { ws.close(); ws = null; }\<close>\<close>

definition close_socket :: "bg \<Rightarrow> bg" where
  "close_socket s = (case ws s of None \<Rightarrow> s | Some _ \<Rightarrow> s\<lparr>ws := None\<rparr>)"

record stop_env =
  stop_capture_reply :: "capture_reply outcome"
  wait_events :: "(nat \<times> ws_event) list"
  close_document :: "unit outcome"

text \<open>\<^verbatim>\<open>stopRecording\<close>. It always returns: both waits it makes for the platform end,
  and the wait for the final notes ends with the timer at the latest.\<close>

definition stopRecording :: "stop_env \<Rightarrow> bg \<Rightarrow> bg \<times> reply" where
  "stopRecording env s =
     (if \<not> isRecording s then (s, Failure ''Not recording'')
      else
        let s1 = s\<lparr>offscreen_sent := offscreen_sent s @ [STOP_CAPTURE]\<rparr> in
        case stop_capture_reply env of
          Rejects e \<Rightarrow> (s1\<lparr>isRecording := False\<rparr>, Failure e)
        | Resolves _ \<Rightarrow>
           (case request_final_notes (wait_events env) s1 of
              (s2, finalNotes, waited) \<Rightarrow>
                (let s3 = close_socket s2 in
                 case closeOffscreenDocument (close_document env) s3 of
                   Inl e \<Rightarrow> (s3\<lparr>isRecording := False\<rparr>, Failure e)
                 | Inr s4 \<Rightarrow>
                     (broadcastToPopup (CONNECTION_STATUS False)
                        (broadcastToPopup (STATUS ''Recording stopped'')
                           (s4\<lparr>isRecording := False\<rparr>)),
                      Stopped (map_option five_fields finalNotes)))))"

text \<open>A message of \<^verbatim>\<open>chrome.runtime.onMessage\<close>, with the fields the second
  listener of the worker reads.\<close>

record runtime_message =
  msg_type :: string
  msg_target :: "string option"
  msg_data :: string
  msg_format :: "string option"

text \<open>The listener that receives audio from the offscreen document. The second
  component tells whether \<^verbatim>\<open>sendResponse({ received: true })\<close> was called.
  \<^verbatim>\<open>message.format || 'webm'\<close> falls back on an absent or empty format.\<close>

definition audio_listener :: "runtime_message \<Rightarrow> bg \<Rightarrow> bg \<times> bool" where
  "audio_listener m s =
     (if msg_type m = ''AUDIO_DATA'' \<and> msg_target m = Some ''background''
      then ((if ws s = Some OPEN
             then ws_send (Audio_frame (msg_data m)
                    (case msg_format m of
                       None \<Rightarrow> ''webm''
                     | Some f \<Rightarrow> if f = [] then ''webm'' else f)) s
             else s), True)
      else (s, False))"

text \<open>The worker as loaded: the initial values of its variables, nothing stored,
  nothing sent.\<close>

definition bg_init :: bg where
  "bg_init = \<lparr>isRecording = False, ws = None, apiKey = None, transcriptLines = [],
     currentNotes = None, wsAuthResolved = False,
     local_storage = \<lparr>st_transcript = [], st_notes = None, st_isRecording = False\<rparr>,
     offscreen_document = False, wire = [], popup = [], offscreen_sent = []\<rparr>"

section \<open>The offscreen document\<close>

text \<open>
  A \<^verbatim>\<open>MediaRecorder\<close> object together with the \<^verbatim>\<open>chunks\<close> array its handlers
  close over. The objects live in a list, oldest first; the index of an object is its
  identity, which \<^verbatim>\<open>mediaRecorder\<close> and the timer callbacks hold. A blob is the
  string of its bytes.
\<close>

datatype rec_state = Rec_inactive | Rec_recording

record recorder =
  rec_state :: rec_state
  chunks :: "string list"

text \<open>What the document does to the platform, in order. \<open>Set_timeout t ms\<close> is the
  call that returned the timer id \<open>t\<close>.\<close>

datatype action =
    Recorder_new nat
  | Recorder_start nat
  | Recorder_stop nat
  | Set_timeout nat nat
  | Clear_timeout nat
  | Tracks_stop
  | Context_close

text \<open>The \<^verbatim>\<open>AUDIO_DATA\<close> message of \<^verbatim>\<open>recorder.onstop\<close>; \<open>audio_data\<close> stands for the
  base64 text of the blob.\<close>

record audio_message =
  audio_data :: string
  audio_format :: string

text \<open>
  The four module-level variables of \<^verbatim>\<open>offscreen.js\<close>, the recorder objects, the
  pending timeouts (timer id and the recorder its callback closes over), the recorders
  whose \<^verbatim>\<open>dataavailable\<close> and \<^verbatim>\<open>stop\<close> events are queued, and what was done and
  sent. A stream is named by the id it was obtained for. Timer ids are positive, so a
  timer id is truthy. The 1000 ms interval that resumes a suspended
  \<^verbatim>\<open>AudioContext\<close> touches none of these and is left out.
\<close>

record offscreen =
  mediaRecorder :: "nat option"
  mediaStream :: "string option"
  audioContext :: "unit option"
  recordingInterval :: "nat option"
  recorders :: "recorder list"
  timers :: "(nat \<times> nat) list"
  next_timer :: nat
  flush_queue :: "nat list"
  actions :: "action list"
  runtime_sent :: "audio_message list"

definition offscreen_init :: offscreen where
  "offscreen_init = \<lparr>mediaRecorder = None, mediaStream = None, audioContext = None,
     recordingInterval = None, recorders = [], timers = [], next_timer = 1,
     flush_queue = [], actions = [], runtime_sent = []\<rparr>"

definition recorder_active :: "nat \<Rightarrow> offscreen \<Rightarrow> bool" where
  "recorder_active r s = (r < length (recorders s) \<and> rec_state (recorders s ! r) \<noteq> Rec_inactive)"

text \<open>\<^verbatim>\<open>MediaRecorder.stop()\<close>: on an inactive recorder nothing happens; otherwise
  the recorder becomes inactive at once and its \<^verbatim>\<open>dataavailable\<close> and \<^verbatim>\<open>stop\<close>
  events are queued.\<close>

definition recorder_stop :: "nat \<Rightarrow> offscreen \<Rightarrow> offscreen" where
  "recorder_stop r s =
     (let s1 = s\<lparr>actions := actions s @ [Recorder_stop r]\<rparr> in
      if recorder_active r s
      then s1\<lparr>recorders := (recorders s)[r := (recorders s ! r)\<lparr>rec_state := Rec_inactive\<rparr>],
              flush_queue := flush_queue s @ [r]\<rparr>
      else s1)"

definition startRecordingParams :: "offscreen \<Rightarrow> offscreen" where
  "startRecordingParams s =
     (case mediaStream s of
        None \<Rightarrow> s
      | Some _ \<Rightarrow>
          (let r = length (recorders s); t = next_timer s in
           s\<lparr>recorders := recorders s @ [\<lparr>rec_state = Rec_recording, chunks = []\<rparr>],
             mediaRecorder := Some r,
             recordingInterval := Some t,
             timers := timers s @ [(t, r)],
             next_timer := Suc t,
             actions := actions s @ [Recorder_new r, Recorder_start r, Set_timeout t 3000]\<rparr>))"

text \<open>The callback given to \<^verbatim>\<open>setTimeout\<close>, for the recorder \<open>r\<close> it closes over.\<close>

definition rotation_callback :: "nat \<Rightarrow> offscreen \<Rightarrow> offscreen" where
  "rotation_callback r s =
     (case mediaStream s of
        None \<Rightarrow> s
      | Some _ \<Rightarrow> startRecordingParams (recorder_stop r s))"

definition remove_timer :: "nat \<Rightarrow> offscreen \<Rightarrow> offscreen" where
  "remove_timer t s = s\<lparr>timers := filter (\<lambda>(t', r). t' \<noteq> t) (timers s)\<rparr>"

text \<open>The timer \<open>t\<close> fires: a one-shot timer leaves the pending ones and its callback
  runs. A timer that was cleared, or has fired, does not fire.\<close>

definition timer_fired :: "nat \<Rightarrow> offscreen \<Rightarrow> offscreen" where
  "timer_fired t s =
     (case map_of (timers s) t of
        None \<Rightarrow> s
      | Some r \<Rightarrow> rotation_callback r (remove_timer t s))"

text \<open>
  The queued events of a stopped recorder \<open>r\<close> run: \<^verbatim>\<open>ondataavailable\<close> with the
  blob the encoder gathered, then \<^verbatim>\<open>onstop\<close>.
\<close>

definition recorder_flushed :: "nat \<Rightarrow> string \<Rightarrow> offscreen \<Rightarrow> offscreen" where
  "recorder_flushed r blob s =
     (if r \<in> set (flush_queue s) \<and> r < length (recorders s)
      then
        (let cs = chunks (recorders s ! r) @ (if 0 < length blob then [blob] else []);
             s1 = s\<lparr>recorders := (recorders s)[r := (recorders s ! r)\<lparr>chunks := cs\<rparr>],
                    flush_queue := removeAll r (flush_queue s)\<rparr>
         in if 0 < length cs
            then s1\<lparr>runtime_sent := runtime_sent s1 @
                      [\<lparr>audio_data = concat cs, audio_format = ''webm''\<rparr>]\<rparr>
            else s1)
      else s)"

definition clearTimeout :: "nat \<Rightarrow> offscreen \<Rightarrow> offscreen" where
  "clearTimeout t s = (remove_timer t s)\<lparr>actions := actions s @ [Clear_timeout t]\<rparr>"

definition stopCapture :: "offscreen \<Rightarrow> offscreen" where
  "stopCapture s =
     (let s1 = (case recordingInterval s of
                  None \<Rightarrow> s
                | Some t \<Rightarrow> (clearTimeout t s)\<lparr>recordingInterval := None\<rparr>);
          s2 = (case mediaRecorder s1 of
                  None \<Rightarrow> s1
                | Some r \<Rightarrow> if recorder_active r s1 then recorder_stop r s1 else s1);
          s3 = (case mediaStream s2 of
                  None \<Rightarrow> s2
                | Some _ \<Rightarrow> s2\<lparr>mediaStream := None, actions := actions s2 @ [Tracks_stop]\<rparr>);
          s4 = (case audioContext s3 of
                  None \<Rightarrow> s3
                | Some _ \<Rightarrow> s3\<lparr>audioContext := None, actions := actions s3 @ [Context_close]\<rparr>)
      in s4\<lparr>mediaRecorder := None\<rparr>)"

text \<open>\<^verbatim>\<open>startCapture(streamId)\<close>, given what \<^verbatim>\<open>getUserMedia\<close> does, with the reply
  the listener sends when the promise it returns settles.\<close>

definition startCapture :: "string \<Rightarrow> unit outcome \<Rightarrow> offscreen \<Rightarrow> offscreen \<times> capture_reply" where
  "startCapture streamId media s =
     (case media of
        Rejects e \<Rightarrow> (s, \<lparr>success = False, error_text = Some e\<rparr>)
      | Resolves _ \<Rightarrow>
          (startRecordingParams (s\<lparr>mediaStream := Some streamId, audioContext := Some ()\<rparr>),
           \<lparr>success = True, error_text = None\<rparr>))"

text \<open>The listener of the document, for a message whose target is \<^verbatim>\<open>'offscreen'\<close>.\<close>

fun offscreen_listener ::
  "offscreen_msg \<Rightarrow> unit outcome \<Rightarrow> offscreen \<Rightarrow> offscreen \<times> capture_reply" where
  "offscreen_listener (START_CAPTURE streamId) media s = startCapture streamId media s"
| "offscreen_listener STOP_CAPTURE media s =
     (stopCapture s, \<lparr>success = True, error_text = None\<rparr>)"

definition active_count :: "offscreen \<Rightarrow> nat" where
  "active_count s = length (filter (\<lambda>r. rec_state r \<noteq> Rec_inactive) (recorders s))"

section \<open>What the properties are stated with\<close>


text \<open>The events the worker handles during the wait: those due before the timer, up
  to and including the first \<^verbatim>\<open>final_notes\<close> message.\<close>

fun delivered :: "nat \<Rightarrow> (nat \<times> ws_event) list \<Rightarrow> ws_event list" where
  "delivered elapsed [] = []"
| "delivered elapsed ((d, e) # es) =
     (if 10000 \<le> elapsed + d then []
      else e # (case final_notes_of e of
                  Some n \<Rightarrow> []
                | None \<Rightarrow> delivered (elapsed + d) es))"

text \<open>The events a \<^verbatim>\<open>stopRecording\<close> handles while it waits, if it waits at all.\<close>

definition stop_delivered :: "stop_env \<Rightarrow> bg \<Rightarrow> ws_event list" where
  "stop_delivered env s =
     (case stop_capture_reply env of
        Rejects e \<Rightarrow> []
      | Resolves r \<Rightarrow>
          if isRecording s \<and> ws s = Some OPEN then delivered 0 (wait_events env) else [])"

text \<open>The provisional notes document an event carries, and the last one among a list
  of events (\<open>n\<close> when there is none).\<close>

fun notes_of :: "ws_event \<Rightarrow> notes_doc option" where
  "notes_of (Ws_message (Some (Notes_frame d))) = Some (five_fields d)"
| "notes_of e = None"

fun last_notes :: "ws_event list \<Rightarrow> notes_doc option \<Rightarrow> notes_doc option" where
  "last_notes [] n = n"
| "last_notes (e # es) n = last_notes es (case notes_of e of Some d \<Rightarrow> Some d | None \<Rightarrow> n)"

text \<open>The \<^verbatim>\<open>state\<close> of every recorder object, oldest first.\<close>

definition recorder_states :: "offscreen \<Rightarrow> rec_state list" where
  "recorder_states s = map rec_state (recorders s)"

text \<open>
  The invariant of the rotation loop: every recorder but the newest is inactive, at
  most one timeout is pending, and the callback of a pending timeout closes over the
  newest recorder.
\<close>

definition rotation_inv :: "offscreen \<Rightarrow> bool" where
  "rotation_inv s =
     (list_all (\<lambda>st. st = Rec_inactive) (butlast (recorder_states s)) \<and>
      length (timers s) \<le> 1 \<and>
      list_all (\<lambda>tr. Suc (snd tr) = length (recorders s)) (timers s))"

text \<open>What can happen in the document once a capture has started: a timer fires, the
  queued events of a stopped recorder run, or \<^verbatim>\<open>STOP_CAPTURE\<close> arrives.\<close>

datatype off_event = Timer_fires nat | Recorder_flushes nat string | Stop_capture

fun off_step :: "off_event \<Rightarrow> offscreen \<Rightarrow> offscreen" where
  "off_step (Timer_fires t) s = timer_fired t s"
| "off_step (Recorder_flushes r blob) s = recorder_flushed r blob s"
| "off_step Stop_capture s = stopCapture s"

fun off_run :: "off_event list \<Rightarrow> offscreen \<Rightarrow> offscreen" where
  "off_run [] s = s"
| "off_run (e # es) s = off_run es (off_step e s)"

text \<open>
  The invariant of one capture, on top of the rotation invariant: a pending timeout is the
  one \<^verbatim>\<open>recordingInterval\<close> holds, and a recorder that is active is the one
  \<^verbatim>\<open>mediaRecorder\<close> holds.
\<close>

definition capture_inv :: "offscreen \<Rightarrow> bool" where
  "capture_inv s =
     (rotation_inv s \<and>
      list_all (\<lambda>tr. recordingInterval s = Some (fst tr)) (timers s) \<and>
      (active_count s = 0 \<or> mediaRecorder s = Some (length (recorders s) - 1)))"

section \<open>Concrete sessions\<close>

definition ok_reply :: capture_reply where
  "ok_reply = \<lparr>success = True, error_text = None\<rparr>"

text \<open>A start in which everything works: the service answers the auth frame with
  \<^verbatim>\<open>auth_success\<close>.\<close>

definition good_start_env :: start_env where
  "good_start_env = \<lparr>active_tab = Resolves (Some 7), socket_ctor_ok = True,
     connect_events = [Ws_open, Ws_message (Some Auth_success)],
     create_document = Resolves (), media_stream_id = Resolves ''tab-7'',
     start_capture_reply = Resolves ok_reply\<rparr>"

text \<open>A stop during which the service sends nothing.\<close>

definition quiet_stop_env :: stop_env where
  "quiet_stop_env = \<lparr>stop_capture_reply = Resolves ok_reply, wait_events = [],
     close_document = Resolves ()\<rparr>"

definition recording_bg :: bg where
  "recording_bg = fst (startRecording good_start_env bg_init)"

text \<open>The worker after a start that failed at \<^verbatim>\<open>getMediaStreamId\<close>.\<close>

definition stray_bg :: bg where
  "stray_bg = fst (startRecording
     (good_start_env\<lparr>media_stream_id := Rejects ''Cannot capture''\<rparr>) bg_init)"

definition draft_doc :: frame_data where
  "draft_doc = \<lparr>summary = JString ''draft'', key_points = JArray [], action_items = JArray [],
     decisions = JArray [], questions = JArray [],
     other_fields = [(''type'', JString ''notes'')]\<rparr>"

definition final_doc :: frame_data where
  "final_doc = \<lparr>summary = JString ''final'', key_points = JArray [''k''],
     action_items = JArray [], decisions = JArray [], questions = JArray [],
     other_fields = [(''type'', JString ''final_notes'')]\<rparr>"

text \<open>The recording worker after one provisional notes document has arrived.\<close>

definition noted_bg :: bg where
  "noted_bg = fst (ws_events [Ws_message (Some (Notes_frame draft_doc))] (recording_bg, Some True))"

text \<open>A stop during which the final notes arrive after 100 ms.\<close>

definition final_stop_env :: stop_env where
  "final_stop_env =
     quiet_stop_env\<lparr>wait_events := [(100, Ws_message (Some (Final_notes final_doc)))]\<rparr>"


definition stopped_bg :: bg where
  "stopped_bg = fst (stopRecording quiet_stop_env recording_bg)"

text \<open>A start in which \<^verbatim>\<open>getUserMedia\<close> rejects in the offscreen document: the
  \<^verbatim>\<open>START_CAPTURE\<close> message resolves with the reply of the document's listener.\<close>

definition capture_failed_env :: start_env where
  "capture_failed_env = good_start_env\<lparr>start_capture_reply :=
     Resolves (snd (offscreen_listener (START_CAPTURE ''tab-7'') (Rejects ''Permission denied'')
                      offscreen_init))\<rparr>"

definition audio_msg :: runtime_message where
  "audio_msg = \<lparr>msg_type = ''AUDIO_DATA'', msg_target = Some ''background'',
     msg_data = ''GkXfo59C'', msg_format = Some ''webm''\<rparr>"

text \<open>The document after a capture has started, and after the first rotation.\<close>

definition capturing :: offscreen where
  "capturing = fst (startCapture ''tab-7'' (Resolves ()) offscreen_init)"


section \<open>The worker: what the handlers leave alone\<close>

text \<open>The concrete states, computed.\<close>

lemma recording_bg_simp:
  "recording_bg = \<lparr>isRecording = True, ws = Some OPEN, apiKey = None,
     transcriptLines = [], currentNotes = None, wsAuthResolved = True,
     local_storage = \<lparr>st_transcript = [], st_notes = None, st_isRecording = True\<rparr>,
     offscreen_document = True, wire = [Auth_frame None],
     popup = [CONNECTION_STATUS True, STATUS ''Recording...''],
     offscreen_sent = [START_CAPTURE ''tab-7'']\<rparr>"
  by (simp add: recording_bg_def startRecording_def good_start_env_def bg_init_def
      connectWebSocket_def ws_send_def broadcastToPopup_def resolve_def
      setupOffscreenDocument_def)

lemma stray_bg_simp:
  "stray_bg = \<lparr>isRecording = False, ws = Some OPEN, apiKey = None,
     transcriptLines = [], currentNotes = None, wsAuthResolved = True,
     local_storage = \<lparr>st_transcript = [], st_notes = None, st_isRecording = False\<rparr>,
     offscreen_document = True, wire = [Auth_frame None],
     popup = [CONNECTION_STATUS True], offscreen_sent = []\<rparr>"
  by (simp add: stray_bg_def startRecording_def good_start_env_def bg_init_def
      connectWebSocket_def ws_send_def broadcastToPopup_def resolve_def
      setupOffscreenDocument_def)

text \<open>No frame and no socket event touches the flag, the offscreen document or the
  messages sent to it; only a \<^verbatim>\<open>notes\<close> frame touches the stored notes.\<close>

lemma handle_frame:
  "isRecording (fst (handleWebSocketMessage d s)) = isRecording s"
  "ws (fst (handleWebSocketMessage d s)) = ws s"
  "offscreen_document (fst (handleWebSocketMessage d s)) = offscreen_document s"
  "offscreen_sent (fst (handleWebSocketMessage d s)) = offscreen_sent s"
  "wire (fst (handleWebSocketMessage d s)) = wire s"
  by (cases d; simp add: Let_def broadcastToPopup_def split: option.splits)+

lemma handle_notes:
  "st_notes (local_storage (fst (handleWebSocketMessage d s))) =
     (case notes_of (Ws_message (Some d)) of
        Some n \<Rightarrow> Some n
      | None \<Rightarrow> st_notes (local_storage s))"
  by (cases d; simp add: Let_def broadcastToPopup_def split: option.splits)

lemma step_cases:
  "fst (ws_event_step e (s, p)) =
     (case e of
        Ws_open \<Rightarrow>
          (case ws s of
             None \<Rightarrow> s
           | Some _ \<Rightarrow> ws_send (Auth_frame (apiKey s)) (s\<lparr>ws := Some OPEN\<rparr>))
      | Ws_message None \<Rightarrow> s
      | Ws_message (Some d) \<Rightarrow> fst (handleWebSocketMessage d s)
      | Ws_error \<Rightarrow> broadcastToPopup (ERROR (Some ''WebSocket connection failed'')) s
      | Ws_close \<Rightarrow> broadcastToPopup (CONNECTION_STATUS False)
                      (case ws s of None \<Rightarrow> s | Some _ \<Rightarrow> s\<lparr>ws := Some CLOSED\<rparr>)
      | Connect_timeout \<Rightarrow> s)"
  by (cases e) (simp_all split: prod.splits option.splits)

lemma step_frame:
  "isRecording (fst (ws_event_step e (s, p))) = isRecording s"
  "offscreen_document (fst (ws_event_step e (s, p))) = offscreen_document s"
  "offscreen_sent (fst (ws_event_step e (s, p))) = offscreen_sent s"
  by (simp_all add: step_cases ws_send_def broadcastToPopup_def handle_frame
        split: ws_event.splits option.splits)

lemma step_notes:
  "st_notes (local_storage (fst (ws_event_step e (s, p)))) =
     (case notes_of e of Some n \<Rightarrow> Some n | None \<Rightarrow> st_notes (local_storage s))"
  by (cases e) (simp_all add: step_cases ws_send_def broadcastToPopup_def handle_notes
        split: option.splits)

text \<open>What an event does to the state does not depend on the promise.\<close>

lemma step_state_indep: "fst (ws_event_step e (s, p)) = fst (ws_event_step e (s, q))"
  by (simp add: step_cases)

lemma events_isRecording: "isRecording (fst (ws_events evs (s, p))) = isRecording s"
proof (induction evs arbitrary: s p)
  case Nil show ?case by simp
next
  case (Cons e es)
  obtain s1 p1 where h: "ws_event_step e (s, p) = (s1, p1)" by (cases "ws_event_step e (s, p)")
  have "isRecording s1 = isRecording s" using step_frame(1) [of e s p] h by simp
  with Cons.IH [of s1 p1] h show ?case by simp
qed

lemma events_notes:
  "st_notes (local_storage (fst (ws_events evs (s, p)))) = last_notes evs (st_notes (local_storage s))"
proof (induction evs arbitrary: s p)
  case Nil show ?case by simp
next
  case (Cons e es)
  obtain s1 p1 where h: "ws_event_step e (s, p) = (s1, p1)" by (cases "ws_event_step e (s, p)")
  have "st_notes (local_storage s1) = (case notes_of e of Some n \<Rightarrow> Some n | None \<Rightarrow> st_notes (local_storage s))"
    using step_notes [of e s p] h by simp
  with Cons.IH [of s1 p1] h show ?case by simp
qed




lemma await_notes:
  "st_notes (local_storage (fst (await_final_notes el evs s))) =
     last_notes (delivered el evs) (st_notes (local_storage s))"
  by (induction el evs s rule: await_final_notes.induct) (simp_all add: Let_def step_notes split: option.splits)

lemma last_notes_append: "last_notes (xs @ ys) n = last_notes ys (last_notes xs n)"
  by (induction xs arbitrary: n) simp_all

lemma close_socket_frame:
  "isRecording (close_socket s) = isRecording s"
  "offscreen_document (close_socket s) = offscreen_document s"
  "local_storage (close_socket s) = local_storage s"
  by (simp_all add: close_socket_def split: option.splits)




lemma request_notes:
  "st_notes (local_storage (fst (request_final_notes evs s))) =
     last_notes (if ws s = Some OPEN then delivered 0 evs else []) (st_notes (local_storage s))"
  by (simp add: request_final_notes_def await_notes ws_send_def)



lemma stopRecording_notes:
  "st_notes (local_storage (fst (stopRecording env s))) =
     last_notes (stop_delivered env s) (st_notes (local_storage s))"
proof (cases "isRecording s")
  case False
  then show ?thesis by (simp add: stopRecording_def stop_delivered_def split: outcome.splits)
next
  case True
  let ?s1 = "s\<lparr>offscreen_sent := offscreen_sent s @ [STOP_CAPTURE]\<rparr>"
  obtain s2 n w where r: "request_final_notes (wait_events env) ?s1 = (s2, n, w)"
    by (metis prod_cases3)
  have "st_notes (local_storage s2) =
     last_notes (if ws s = Some OPEN then delivered 0 (wait_events env) else []) (st_notes (local_storage s))"
    using request_notes [of "wait_events env" ?s1] r by simp
  then show ?thesis using True r
    by (simp add: stopRecording_def stop_delivered_def Let_def closeOffscreenDocument_def
        close_socket_frame broadcastToPopup_def split: outcome.splits)
qed

lemma startRecording_started:
  assumes "startRecording env s0 = (s1, Some Started)"
  shows "isRecording s1 \<and> st_notes (local_storage s1) = None \<and> currentNotes s1 = None"
  using assms
  by (auto simp: startRecording_def Let_def broadcastToPopup_def
      split: if_splits outcome.splits option.splits prod.splits bool.splits sum.splits)

lemma noted_bg_simp:
  "noted_bg = recording_bg\<lparr>currentNotes := Some (five_fields draft_doc),
     local_storage := \<lparr>st_transcript = [], st_notes = Some (five_fields draft_doc),
                        st_isRecording = True\<rparr>,
     popup := [CONNECTION_STATUS True, STATUS ''Recording...'',
               NOTES_UPDATE (five_fields draft_doc)]\<rparr>"
  by (simp add: noted_bg_def recording_bg_simp broadcastToPopup_def)

lemma stopped_bg_simp:
  "stopped_bg = \<lparr>isRecording = False, ws = None, apiKey = None,
     transcriptLines = [], currentNotes = None, wsAuthResolved = True,
     local_storage = \<lparr>st_transcript = [], st_notes = None, st_isRecording = True\<rparr>,
     offscreen_document = False, wire = [Auth_frame None, Stop_frame],
     popup = [CONNECTION_STATUS True, STATUS ''Recording...'',
              STATUS ''Recording stopped'', CONNECTION_STATUS False],
     offscreen_sent = [START_CAPTURE ''tab-7'', STOP_CAPTURE]\<rparr>"
  by (simp add: stopped_bg_def recording_bg_simp stopRecording_def quiet_stop_env_def
      request_final_notes_def ws_send_def close_socket_def closeOffscreenDocument_def
      broadcastToPopup_def)

section \<open>The offscreen document: the rotation invariant\<close>

lemma active_count_states:
  "active_count s = length (filter (\<lambda>st. st \<noteq> Rec_inactive) (recorder_states s))"
  by (simp add: active_count_def recorder_states_def filter_map comp_def)

lemma all_inactive_count:
  "list_all (\<lambda>st. st = Rec_inactive) xs \<Longrightarrow> filter (\<lambda>st. st \<noteq> Rec_inactive) xs = []"
  by (induction xs) simp_all


lemma map_update_same: "f (xs ! r) = v \<Longrightarrow> (map f xs)[r := v] = map f xs"
  by (cases "r < length xs") (simp_all add: list_update_same_conv list_update_beyond)

lemma states_recorder_stop:
  "recorder_states (recorder_stop r s) = (recorder_states s)[r := Rec_inactive]"
proof (cases "r < length (recorders s)")
  case True
  then show ?thesis
    by (simp add: recorder_states_def recorder_stop_def recorder_active_def Let_def map_update
        map_update_same)
next
  case False
  then show ?thesis
    by (simp add: recorder_states_def recorder_stop_def recorder_active_def Let_def
        list_update_beyond)
qed

lemma recorder_stop_frame:
  "timers (recorder_stop r s) = timers s"
  "length (recorders (recorder_stop r s)) = length (recorders s)"
  "mediaStream (recorder_stop r s) = mediaStream s"
  "next_timer (recorder_stop r s) = next_timer s"
  "runtime_sent (recorder_stop r s) = runtime_sent s"
  by (simp_all add: recorder_stop_def Let_def)

lemma recorder_flushed_frame:
  "timers (recorder_flushed r blob s) = timers s"
  "length (recorders (recorder_flushed r blob s)) = length (recorders s)"
  "actions (recorder_flushed r blob s) = actions s"
  by (simp_all add: recorder_flushed_def Let_def)

lemma remove_timer_frame:
  "recorders (remove_timer t s) = recorders s"
  "mediaStream (remove_timer t s) = mediaStream s"
  "next_timer (remove_timer t s) = next_timer s"
  "actions (remove_timer t s) = actions s"
  "runtime_sent (remove_timer t s) = runtime_sent s"
  by (simp_all add: remove_timer_def)

lemma states_startRecordingParams:
  "mediaStream s = Some sid \<Longrightarrow>
     recorder_states (startRecordingParams s) = recorder_states s @ [Rec_recording]"
  by (simp add: recorder_states_def startRecordingParams_def Let_def)

lemma states_recorder_flushed:
  "recorder_states (recorder_flushed r blob s) = recorder_states s"
  by (simp add: recorder_states_def recorder_flushed_def Let_def map_update map_update_same)

lemma states_remove_timer: "recorder_states (remove_timer t s) = recorder_states s"
  by (simp add: recorder_states_def remove_timer_def)

lemma length_states: "length (recorder_states s) = length (recorders s)"
  by (simp add: recorder_states_def)

lemma all_inactive_update:
  "list_all (\<lambda>st. st = Rec_inactive) (butlast xs) \<Longrightarrow> Suc r = length xs \<Longrightarrow>
     list_all (\<lambda>st. st = Rec_inactive) (xs[r := Rec_inactive])"
proof (cases xs rule: rev_cases)
  case Nil
  then show "Suc r = length xs \<Longrightarrow> ?thesis" by simp
next
  case (snoc ys y)
  assume "list_all (\<lambda>st. st = Rec_inactive) (butlast xs)" "Suc r = length xs"
  with snoc show ?thesis by simp
qed

lemma butlast_inactive_update:
  "list_all (\<lambda>st. st = Rec_inactive) (butlast xs) \<Longrightarrow>
     list_all (\<lambda>st. st = Rec_inactive) (butlast (xs[r := Rec_inactive]))"
  by (auto simp: list_all_iff butlast_list_update dest: set_update_subset_insert [THEN subsetD])

lemma inv_remove_timer: "rotation_inv s \<Longrightarrow> rotation_inv (remove_timer t s)"
proof -
  assume inv: "rotation_inv s"
  have "length (timers (remove_timer t s)) \<le> length (timers s)"
    by (simp add: remove_timer_def)
  moreover have "length (timers s) \<le> 1"
    using inv by (simp add: rotation_inv_def)
  ultimately have "length (timers (remove_timer t s)) \<le> 1"
    by (rule order_trans)
  moreover have "list_all (\<lambda>tr. Suc (snd tr) = length (recorders (remove_timer t s)))
      (timers (remove_timer t s))"
    using inv by (simp add: rotation_inv_def remove_timer_def list_all_iff)
  ultimately show ?thesis
    using inv by (simp add: rotation_inv_def states_remove_timer)
qed

lemma inv_recorder_stop: "rotation_inv s \<Longrightarrow> rotation_inv (recorder_stop r s)"
  by (simp add: rotation_inv_def states_recorder_stop butlast_inactive_update recorder_stop_frame)

lemma inv_recorder_flushed: "rotation_inv s \<Longrightarrow> rotation_inv (recorder_flushed r blob s)"
  by (simp add: rotation_inv_def states_recorder_flushed recorder_flushed_frame)

lemma timer_lookup:
  assumes "rotation_inv s" and "map_of (timers s) t = Some r"
  shows "timers s = [(t, r)] \<and> Suc r = length (recorders s) \<and> timers (remove_timer t s) = []"
proof (cases "timers s")
  case Nil
  with assms(2) show ?thesis by simp
next
  case (Cons a as)
  with assms(1) have e: "as = []" by (simp add: rotation_inv_def)
  obtain t' r' where a: "a = (t', r')" by (cases a)
  from assms(2) Cons e a have "t' = t \<and> r' = r" by (simp split: if_splits)
  with assms(1) Cons e a show ?thesis by (simp add: rotation_inv_def remove_timer_def)
qed

lemma stopped_all_inactive:
  assumes "rotation_inv s" and "map_of (timers s) t = Some r"
  shows "list_all (\<lambda>st. st = Rec_inactive) (recorder_states (recorder_stop r (remove_timer t s)))"
proof -
  have a: "Suc r = length (recorder_states s)"
    using timer_lookup [OF assms] by (simp add: length_states)
  have b: "list_all (\<lambda>st. st = Rec_inactive) (butlast (recorder_states s))"
    using assms(1) by (simp add: rotation_inv_def)
  show ?thesis
    using all_inactive_update [OF b a]
    by (simp add: states_recorder_stop states_remove_timer)
qed

lemma rotation_step:
  assumes "rotation_inv s" and "map_of (timers s) t = Some r" and "mediaStream s = Some sid"
  shows "active_count (recorder_stop r (remove_timer t s)) = 0"
    and "timer_fired t s = startRecordingParams (recorder_stop r (remove_timer t s))"
    and "active_count (timer_fired t s) = 1"
    and "rotation_inv (timer_fired t s)"
    and "actions (timer_fired t s) = actions s @
           [Recorder_stop r, Recorder_new (length (recorders s)),
            Recorder_start (length (recorders s)), Set_timeout (next_timer s) 3000]"
proof -
  let ?s1 = "recorder_stop r (remove_timer t s)"
  have ms: "mediaStream ?s1 = Some sid"
    using assms(3) by (simp add: recorder_stop_frame remove_timer_frame)
  have all: "list_all (\<lambda>st. st = Rec_inactive) (recorder_states ?s1)"
    using assms(1,2) by (rule stopped_all_inactive)
  have t0: "timers ?s1 = []"
    using timer_lookup [OF assms(1,2)] by (simp add: recorder_stop_frame)
  show c0: "active_count ?s1 = 0"
    using all_inactive_count [OF all] by (simp add: active_count_states)
  show fired: "timer_fired t s = startRecordingParams ?s1"
    using assms(2,3) by (simp add: timer_fired_def rotation_callback_def remove_timer_frame)
  have st: "recorder_states (timer_fired t s) = recorder_states ?s1 @ [Rec_recording]"
    using fired states_startRecordingParams [OF ms] by simp
  show "active_count (timer_fired t s) = 1"
    using st all_inactive_count [OF all] by (simp add: active_count_states)
  show "rotation_inv (timer_fired t s)"
    using st all t0 ms fired
    by (simp add: rotation_inv_def startRecordingParams_def Let_def)
  show "actions (timer_fired t s) = actions s @
           [Recorder_stop r, Recorder_new (length (recorders s)),
            Recorder_start (length (recorders s)), Set_timeout (next_timer s) 3000]"
    using fired ms
    by (simp add: startRecordingParams_def Let_def recorder_stop_frame remove_timer_frame)
       (simp add: recorder_stop_def Let_def remove_timer_def)
qed

lemma recorder_stop_other:
  "mediaRecorder (recorder_stop r s) = mediaRecorder s"
  "audioContext (recorder_stop r s) = audioContext s"
  "recordingInterval (recorder_stop r s) = recordingInterval s"
  by (simp_all add: recorder_stop_def Let_def)

lemma stopCapture_timers:
  "timers (stopCapture s) =
     (case recordingInterval s of None \<Rightarrow> timers s | Some t \<Rightarrow> timers (remove_timer t s))"
  by (simp add: stopCapture_def Let_def clearTimeout_def recorder_stop_frame remove_timer_def
      split: option.splits)

lemma stopCapture_length: "length (recorders (stopCapture s)) = length (recorders s)"
  by (simp add: stopCapture_def Let_def clearTimeout_def recorder_stop_frame remove_timer_def
      split: option.splits)

lemma states_inactive_update:
  "\<not> recorder_active r s \<Longrightarrow> (recorder_states s)[r := Rec_inactive] = recorder_states s"
  by (cases "r < length (recorders s)")
     (simp_all add: recorder_active_def recorder_states_def map_update_same list_update_beyond)

lemma stopCapture_states:
  "recorder_states (stopCapture s) =
     (case mediaRecorder s of
        None \<Rightarrow> recorder_states s
      | Some r \<Rightarrow> (recorder_states s)[r := Rec_inactive])"
proof -
  let ?s1 = "case recordingInterval s of None \<Rightarrow> s
             | Some t \<Rightarrow> (clearTimeout t s)\<lparr>recordingInterval := None\<rparr>"
  have m: "mediaRecorder ?s1 = mediaRecorder s"
    by (simp add: clearTimeout_def remove_timer_def split: option.splits)
  have r: "recorders ?s1 = recorders s"
    by (simp add: clearTimeout_def remove_timer_def split: option.splits)
  then have st: "recorder_states ?s1 = recorder_states s" by (simp add: recorder_states_def)
  let ?s2 = "case mediaRecorder ?s1 of None \<Rightarrow> ?s1
             | Some r \<Rightarrow> if recorder_active r ?s1 then recorder_stop r ?s1 else ?s1"
  have s2: "recorder_states ?s2 =
     (case mediaRecorder s of None \<Rightarrow> recorder_states s
      | Some r \<Rightarrow> (recorder_states s)[r := Rec_inactive])"
  proof (cases "mediaRecorder s")
    case None
    with m st show ?thesis by simp
  next
    case (Some q)
    show ?thesis
    proof (cases "recorder_active q ?s1")
      case True
      with Some m st show ?thesis by (simp add: states_recorder_stop)
    next
      case False
      with Some m st states_inactive_update [OF False] show ?thesis by simp
    qed
  qed
  have "recorder_states (stopCapture s) = recorder_states ?s2"
    by (simp add: stopCapture_def Let_def recorder_states_def split: option.splits)
  with s2 show ?thesis by simp
qed

lemma inv_stopCapture: "rotation_inv s \<Longrightarrow> rotation_inv (stopCapture s)"
proof -
  assume inv: "rotation_inv s"
  have a: "list_all (\<lambda>st. st = Rec_inactive) (butlast (recorder_states (stopCapture s)))"
    using inv by (simp add: rotation_inv_def stopCapture_states butlast_inactive_update
        split: option.splits)
  have b: "length (timers (stopCapture s)) \<le> 1 \<and>
     list_all (\<lambda>tr. Suc (snd tr) = length (recorders s)) (timers (stopCapture s))"
  proof (cases "recordingInterval s")
    case None
    with inv show ?thesis by (simp add: stopCapture_timers rotation_inv_def)
  next
    case (Some t)
    with inv_remove_timer [OF inv, of t] show ?thesis
      by (simp add: stopCapture_timers rotation_inv_def remove_timer_frame)
  qed
  from a b show ?thesis by (simp add: rotation_inv_def stopCapture_length)
qed






lemma flushed_queue:
  "flush_queue (recorder_flushed r blob s) =
     (if r \<in> set (flush_queue s) \<and> r < length (recorders s)
      then removeAll r (flush_queue s) else flush_queue s)"
  by (simp add: recorder_flushed_def Let_def)

lemma stopCapture_handles:
  "mediaRecorder (stopCapture s) = None"
  "mediaStream (stopCapture s) = None"
  "audioContext (stopCapture s) = None"
  "recordingInterval (stopCapture s) = None"
  by (simp_all add: stopCapture_def Let_def clearTimeout_def remove_timer_def recorder_stop_other
        recorder_stop_frame split: option.splits)

lemma stopCapture_null:
  assumes "mediaRecorder s = None" "mediaStream s = None" "audioContext s = None"
    "recordingInterval s = None"
  shows "stopCapture s = s"
  using assms by (simp add: stopCapture_def)

lemma stopCapture_actions:
  "actions (stopCapture s) = actions s
     @ (case recordingInterval s of None \<Rightarrow> [] | Some t \<Rightarrow> [Clear_timeout t])
     @ (case mediaRecorder s of None \<Rightarrow> []
        | Some r \<Rightarrow> if recorder_active r s then [Recorder_stop r] else [])
     @ (case mediaStream s of None \<Rightarrow> [] | Some sid \<Rightarrow> [Tracks_stop])
     @ (case audioContext s of None \<Rightarrow> [] | Some c \<Rightarrow> [Context_close])"
  by (simp add: stopCapture_def Let_def clearTimeout_def remove_timer_def recorder_stop_def
      recorder_active_def split: option.splits)

text \<open>What \<open>stopCapture\<close> leaves behind: the whole state after the call, and what it means
  for the timer and the recorder the handles referred to.\<close>

lemma stopCapture_post:
  "stopCapture s =
     s\<lparr>mediaRecorder := None, mediaStream := None, audioContext := None,
       recordingInterval := None,
       timers := (case recordingInterval s of
                    None \<Rightarrow> timers s
                  | Some t \<Rightarrow> filter (\<lambda>(t', r). t' \<noteq> t) (timers s)),
       recorders := (case mediaRecorder s of
                       None \<Rightarrow> recorders s
                     | Some r \<Rightarrow>
                         if recorder_active r s
                         then (recorders s)[r := (recorders s ! r)\<lparr>rec_state := Rec_inactive\<rparr>]
                         else recorders s),
       flush_queue := flush_queue s @
                        (case mediaRecorder s of
                           None \<Rightarrow> []
                         | Some r \<Rightarrow> if recorder_active r s then [r] else []),
       actions := actions s
         @ (case recordingInterval s of None \<Rightarrow> [] | Some t \<Rightarrow> [Clear_timeout t])
         @ (case mediaRecorder s of None \<Rightarrow> []
            | Some r \<Rightarrow> if recorder_active r s then [Recorder_stop r] else [])
         @ (case mediaStream s of None \<Rightarrow> [] | Some sid \<Rightarrow> [Tracks_stop])
         @ (case audioContext s of None \<Rightarrow> [] | Some c \<Rightarrow> [Context_close])\<rparr>"
  by (simp add: stopCapture_def Let_def clearTimeout_def remove_timer_def recorder_stop_def
      recorder_active_def split: option.splits)

lemma stopCapture_not_active:
  "\<not> recorder_active r (stopCapture s) \<or> mediaRecorder s \<noteq> Some r"
proof (cases "mediaRecorder s = Some r")
  case False
  then show ?thesis by simp
next
  case True
  have "recorder_states (stopCapture s) = (recorder_states s)[r := Rec_inactive]"
    using True by (simp add: stopCapture_states)
  then have "r < length (recorders s) \<Longrightarrow> rec_state (recorders (stopCapture s) ! r) = Rec_inactive"
    by (metis length_list_update length_states nth_list_update_eq nth_map recorder_states_def)
  then show ?thesis
    by (auto simp: recorder_active_def stopCapture_length)
qed

lemma stopCapture_timer_gone:
  "map_of (timers (stopCapture s)) t = None \<or> recordingInterval s \<noteq> Some t"
proof (cases "recordingInterval s = Some t")
  case False
  then show ?thesis by simp
next
  case True
  have "t \<notin> fst ` set (filter (\<lambda>(t', r). t' \<noteq> t) (timers s))" by auto
  then have "map_of (filter (\<lambda>(t', r). t' \<noteq> t) (timers s)) t = None"
    by (simp add: map_of_eq_None_iff)
  with True show ?thesis by (simp add: stopCapture_timers remove_timer_def)
qed

lemma timer_after_stop:
  "recorder_states (timer_fired t (stopCapture s)) = recorder_states (stopCapture s)"
proof (cases "map_of (timers (stopCapture s)) t")
  case None
  then show ?thesis by (simp add: timer_fired_def)
next
  case (Some r)
  have "mediaStream (remove_timer t (stopCapture s)) = None"
    by (simp add: remove_timer_frame stopCapture_handles)
  with Some show ?thesis
    by (simp add: timer_fired_def rotation_callback_def states_remove_timer)
qed

lemma capture_inv_rotation: "capture_inv s \<Longrightarrow> rotation_inv s"
  by (simp add: capture_inv_def)

lemma active_zero_all:
  "active_count s = 0 \<Longrightarrow> list_all (\<lambda>st. st = Rec_inactive) (recorder_states s)"
  by (simp add: active_count_states list_all_iff filter_empty_conv)

lemma all_active_zero:
  "list_all (\<lambda>st. st = Rec_inactive) (recorder_states s) \<Longrightarrow> active_count s = 0"
  by (simp add: active_count_states all_inactive_count)

lemma all_inactive_update_any:
  "list_all (\<lambda>st. st = Rec_inactive) xs \<Longrightarrow> list_all (\<lambda>st. st = Rec_inactive) (xs[r := Rec_inactive])"
  by (auto simp: list_all_iff dest: set_update_subset_insert [THEN subsetD])

lemma stop_quiet:
  assumes "capture_inv s"
  shows "timers (stopCapture s) = []" and "active_count (stopCapture s) = 0"
proof -
  have inv: "rotation_inv s" using assms by (rule capture_inv_rotation)
  have ti: "list_all (\<lambda>tr. recordingInterval s = Some (fst tr)) (timers s)"
    using assms by (simp add: capture_inv_def)
  show "timers (stopCapture s) = []"
  proof (cases "recordingInterval s")
    case None
    with ti have "timers s = []" by (cases "timers s") simp_all
    with None show ?thesis by (simp add: stopCapture_timers)
  next
    case (Some t)
    with ti have "filter (\<lambda>(t', r). t' \<noteq> t) (timers s) = []"
      by (auto simp: list_all_iff filter_empty_conv)
    with Some show ?thesis by (simp add: stopCapture_timers remove_timer_def)
  qed
  have bl: "list_all (\<lambda>st. st = Rec_inactive) (butlast (recorder_states s))"
    using inv by (simp add: rotation_inv_def)
  have "list_all (\<lambda>st. st = Rec_inactive) (recorder_states (stopCapture s))"
  proof (cases "active_count s = 0")
    case True
    then have "list_all (\<lambda>st. st = Rec_inactive) (recorder_states s)" by (rule active_zero_all)
    then show ?thesis
      by (simp add: stopCapture_states all_inactive_update_any split: option.splits)
  next
    case False
    with assms have m: "mediaRecorder s = Some (length (recorders s) - 1)"
      by (simp add: capture_inv_def)
    from False have "recorders s \<noteq> []" by (auto simp: active_count_def)
    then have "Suc (length (recorders s) - 1) = length (recorder_states s)"
      by (simp add: length_states)
    with bl have "list_all (\<lambda>st. st = Rec_inactive)
        ((recorder_states s)[length (recorders s) - 1 := Rec_inactive])"
      by (rule all_inactive_update)
    with m show ?thesis by (simp add: stopCapture_states)
  qed
  then show "active_count (stopCapture s) = 0" by (rule all_active_zero)
qed

lemma cinv_startCapture: "capture_inv (fst (startCapture sid media offscreen_init))"
  by (cases media)
     (simp_all add: startCapture_def startRecordingParams_def capture_inv_def rotation_inv_def
        recorder_states_def active_count_def offscreen_init_def Let_def)

lemma cinv_recorder_flushed: "capture_inv s \<Longrightarrow> capture_inv (recorder_flushed r blob s)"
proof -
  assume c: "capture_inv s"
  have h: "mediaRecorder (recorder_flushed r blob s) = mediaRecorder s"
          "recordingInterval (recorder_flushed r blob s) = recordingInterval s"
    by (simp_all add: recorder_flushed_def Let_def)
  have a: "active_count (recorder_flushed r blob s) = active_count s"
    by (simp add: active_count_states states_recorder_flushed)
  from c show ?thesis
    by (simp add: capture_inv_def inv_recorder_flushed h a recorder_flushed_frame)
qed

lemma cinv_stopCapture: "capture_inv s \<Longrightarrow> capture_inv (stopCapture s)"
proof -
  assume c: "capture_inv s"
  from c have "rotation_inv (stopCapture s)"
    by (simp add: capture_inv_def inv_stopCapture)
  with stop_quiet [OF c] show ?thesis by (simp add: capture_inv_def)
qed

lemma cinv_timer_fired: "capture_inv s \<Longrightarrow> capture_inv (timer_fired t s)"
proof -
  assume c: "capture_inv s"
  then have inv: "rotation_inv s" by (rule capture_inv_rotation)
  show ?thesis
  proof (cases "map_of (timers s) t")
    case None
    with c show ?thesis by (simp add: timer_fired_def)
  next
    case (Some r)
    note lk = timer_lookup [OF inv Some]
    show ?thesis
    proof (cases "mediaStream s")
      case None
      have f: "timer_fired t s = remove_timer t s"
        using Some None by (simp add: timer_fired_def rotation_callback_def remove_timer_frame)
      have "active_count (remove_timer t s) = active_count s"
        by (simp add: active_count_def remove_timer_frame)
      moreover have "mediaRecorder (remove_timer t s) = mediaRecorder s"
        by (simp add: remove_timer_def)
      ultimately show ?thesis
        using c lk f inv_remove_timer [OF inv, of t]
        by (simp add: capture_inv_def remove_timer_frame)
    next
      case (Some sid)
      note st = rotation_step [OF inv \<open>map_of (timers s) t = Some r\<close> Some]
      let ?s1 = "recorder_stop r (remove_timer t s)"
      have ms: "mediaStream ?s1 = Some sid"
        using Some by (simp add: recorder_stop_frame remove_timer_frame)
      have t0: "timers ?s1 = []" using lk by (simp add: recorder_stop_frame)
      have "list_all (\<lambda>tr. recordingInterval (timer_fired t s) = Some (fst tr))
              (timers (timer_fired t s))"
        using st(2) ms t0 by (simp add: startRecordingParams_def Let_def)
      moreover have "mediaRecorder (timer_fired t s)
                       = Some (length (recorders (timer_fired t s)) - 1)"
        using st(2) ms by (simp add: startRecordingParams_def Let_def)
      ultimately show ?thesis using st(4) by (simp add: capture_inv_def)
    qed
  qed
qed

lemma cinv_off_step: "capture_inv s \<Longrightarrow> capture_inv (off_step e s)"
  by (cases e) (simp_all add: cinv_timer_fired cinv_recorder_flushed cinv_stopCapture)

lemma cinv_off_run: "capture_inv s \<Longrightarrow> capture_inv (off_run evs s)"
  by (induction evs arbitrary: s) (simp_all add: cinv_off_step)

lemma capturing_simp:
  "capturing = \<lparr>mediaRecorder = Some 0, mediaStream = Some ''tab-7'',
    audioContext = Some (), recordingInterval = Some 1,
    recorders = [\<lparr>rec_state = Rec_recording, chunks = []\<rparr>], timers = [(1, 0)],
    next_timer = 2, flush_queue = [],
    actions = [Recorder_new 0, Recorder_start 0, Set_timeout 1 3000], runtime_sent = []\<rparr>"
  by (simp add: capturing_def startCapture_def startRecordingParams_def offscreen_init_def)


section \<open>Further facts about connecting and starting\<close>

lemma step_resolved: "snd (ws_event_step e (s, Some b)) = Some b"
proof (cases e)
  case (Ws_message m)
  then show ?thesis
    by (cases m) (simp_all add: resolve_def split: prod.splits option.splits)
qed (simp_all add: resolve_def split: option.splits)

lemma events_resolved: "snd (ws_events evs (s, Some b)) = Some b"
proof (induction evs arbitrary: s)
  case Nil
  show ?case by simp
next
  case (Cons e es)
  obtain s1 p1 where h: "ws_event_step e (s, Some b) = (s1, p1)"
    by (cases "ws_event_step e (s, Some b)")
  have "p1 = Some b" using step_resolved [of e s b] h by simp
  with Cons.IH [of s1] h show ?case by simp
qed

text \<open>The promise of a connect attempt keeps the value of its first resolution: running
  every event gives the same outcome as stopping at the first event that resolves.\<close>

lemma connect_first_outcome: "snd (ws_events evs (s, None)) = snd (await_connect evs s)"
proof (induction evs arbitrary: s)
  case Nil
  show ?case by simp
next
  case (Cons e es)
  obtain s1 p1 where h: "ws_event_step e (s, None) = (s1, p1)"
    by (cases "ws_event_step e (s, None)")
  show ?case
  proof (cases p1)
    case None
    with Cons.IH [of s1] h show ?thesis by simp
  next
    case (Some b)
    with h events_resolved [of es s1 b] show ?thesis by simp
  qed
qed

lemma await_connect_isRecording: "isRecording (fst (await_connect evs s)) = isRecording s"
proof (induction evs arbitrary: s)
  case Nil
  show ?case by simp
next
  case (Cons e es)
  obtain s1 p1 where h: "ws_event_step e (s, None) = (s1, p1)"
    by (cases "ws_event_step e (s, None)")
  have r: "isRecording s1 = isRecording s" using step_frame(1) [of e s None] h by simp
  show ?case
  proof (cases p1)
    case None
    with Cons.IH [of s1] h r show ?thesis by simp
  next
    case (Some b)
    with h r show ?thesis by simp
  qed
qed

lemma connectWebSocket_isRecording:
  "isRecording (fst (connectWebSocket ok evs s)) = isRecording s"
  by (simp add: connectWebSocket_def await_connect_isRecording)

text \<open>Whenever \<^verbatim>\<open>startRecording\<close> returns a failure, the flag is what it was.\<close>

lemma startRecording_failure_keeps_flag:
  assumes "startRecording env s = (s', Some (Failure e))"
  shows "isRecording s' = isRecording s"
proof -
  obtain s1 c where c: "connectWebSocket (socket_ctor_ok env) (connect_events env) s = (s1, c)"
    by (cases "connectWebSocket (socket_ctor_ok env) (connect_events env) s")
  have r: "isRecording s1 = isRecording s"
    using connectWebSocket_isRecording [of "socket_ctor_ok env" "connect_events env" s] c by simp
  from assms c r show ?thesis
    by (auto simp: startRecording_def setupOffscreenDocument_def Let_def
        split: if_splits outcome.splits option.splits bool.splits sum.splits)
qed

section \<open>The properties\<close>

text \<open>C1: a start command received while \<open>isRecording\<close> is already true returns the
  failure \<open>Already recording\<close> and leaves the whole state of the worker as it was: the
  flag, the transcript, the notes, the socket and everything else.\<close>

theorem startRecording_already_recording:
  "isRecording s \<Longrightarrow> startRecording env s = (s, Some (Failure ''Already recording''))"
  by (simp add: startRecording_def)

theorem startRecording_already_recording_witness:
  "isRecording recording_bg \<and>
   startRecording good_start_env recording_bg =
     (recording_bg, Some (Failure ''Already recording''))"
proof -
  have r: "isRecording recording_bg" by (simp add: recording_bg_simp)
  from startRecording_already_recording [OF r, of good_start_env] r show ?thesis by simp
qed




text \<open>C3: the connect attempt of a second session. After a first session has connected
  and stopped, \<open>wsAuthResolved\<close> is still true; the same events that resolved the first
  attempt with success (open, \<^verbatim>\<open>auth_success\<close>, then the timer with the socket open)
  leave the promise of the second attempt pending, so \<^verbatim>\<open>startRecording\<close> never
  returns. On a first attempt, a timer that fires while the socket is open and the
  handshake unanswered resolves nothing either: the later \<^verbatim>\<open>auth_success\<close> decides.\<close>

theorem second_connect_never_resolves:
  "wsAuthResolved bg_init = False
   \<and> snd (connectWebSocket True [Ws_open, Ws_message (Some Auth_success), Connect_timeout]
            bg_init) = Some True
   \<and> wsAuthResolved stopped_bg = True
   \<and> snd (connectWebSocket True [Ws_open, Ws_message (Some Auth_success), Connect_timeout]
            stopped_bg) = None
   \<and> snd (ws_events [Ws_open, Ws_message (Some Auth_success), Connect_timeout]
            (stopped_bg\<lparr>ws := Some CONNECTING\<rparr>, None)) = None
   \<and> snd (startRecording (good_start_env\<lparr>connect_events :=
            [Ws_open, Ws_message (Some Auth_success), Connect_timeout]\<rparr>) stopped_bg) = None
   \<and> snd (connectWebSocket True [Ws_open, Connect_timeout, Ws_message (Some Auth_success)]
            bg_init) = Some True"
  by (simp add: bg_init_def stopped_bg_simp connectWebSocket_def ws_send_def broadcastToPopup_def
      resolve_def startRecording_def good_start_env_def)

text \<open>C4, as the code has it: after a session that started, received the events \<open>evs\<close>
  and was stopped, the notes the worker has stored are the last provisional notes
  document received since the start, during the recording or during the wait of the
  stop, and null when there was none. The stop writes no notes: a \<^verbatim>\<open>final_notes\<close>
  document is returned to the caller but not stored by the worker, and a timeout of the
  wait does not reset the stored notes.\<close>

theorem persisted_notes_after_stop:
  assumes "startRecording env s0 = (s1, Some Started)"
  shows "st_notes (local_storage (fst (stopRecording senv (fst (ws_events evs (s1, p)))))) =
           last_notes (evs @ stop_delivered senv (fst (ws_events evs (s1, p)))) None"
proof -
  have "st_notes (local_storage s1) = None"
    using startRecording_started [OF assms] by simp
  then show ?thesis
    by (simp add: stopRecording_notes events_notes last_notes_append)
qed

theorem persisted_notes_after_stop_witness:
  "startRecording good_start_env bg_init = (recording_bg, Some Started)
   \<and> st_notes (local_storage (fst (stopRecording final_stop_env
        (fst (ws_events [Ws_message (Some (Notes_frame draft_doc))] (recording_bg, Some True))))))
     = Some (five_fields draft_doc)"
proof -
  have a: "startRecording good_start_env bg_init = (recording_bg, Some Started)"
    by (simp add: recording_bg_simp startRecording_def good_start_env_def bg_init_def
        connectWebSocket_def ws_send_def broadcastToPopup_def resolve_def
        setupOffscreenDocument_def)
  from persisted_notes_after_stop [OF a, of final_stop_env
         "[Ws_message (Some (Notes_frame draft_doc))]" "Some True"] a
  show ?thesis
    by (simp add: stop_delivered_def final_stop_env_def quiet_stop_env_def)
qed

text \<open>C4 as stated fails both ways: with a provisional document stored, a stop whose wait
  times out leaves that document stored, not null; and a stop that receives the final
  notes returns them but leaves the provisional document stored.\<close>

theorem persisted_notes_counterexample:
  "isRecording noted_bg
   \<and> snd (stopRecording quiet_stop_env noted_bg) = Stopped None
   \<and> st_notes (local_storage (fst (stopRecording quiet_stop_env noted_bg)))
       = Some (five_fields draft_doc)
   \<and> snd (stopRecording final_stop_env noted_bg) = Stopped (Some (five_fields final_doc))
   \<and> st_notes (local_storage (fst (stopRecording final_stop_env noted_bg)))
       = Some (five_fields draft_doc)
   \<and> five_fields draft_doc \<noteq> five_fields final_doc"
  by (simp add: noted_bg_simp recording_bg_simp stopRecording_def quiet_stop_env_def
      final_stop_env_def request_final_notes_def ws_send_def close_socket_def
      closeOffscreenDocument_def broadcastToPopup_def five_fields_def draft_doc_def
      final_doc_def)




text \<open>C6: a start whose capture fails in the offscreen document. \<^verbatim>\<open>getUserMedia\<close>
  rejects, the document replies \<^verbatim>\<open>{success: false, error}\<close> and has started nothing;
  the worker does not read the reply, sets \<open>isRecording\<close> and returns success.\<close>

theorem failed_capture_reported_as_started:
  "snd (offscreen_listener (START_CAPTURE ''tab-7'') (Rejects ''Permission denied'') offscreen_init)
     = \<lparr>success = False, error_text = Some ''Permission denied''\<rparr>
   \<and> fst (offscreen_listener (START_CAPTURE ''tab-7'') (Rejects ''Permission denied'') offscreen_init)
     = offscreen_init
   \<and> snd (startRecording capture_failed_env bg_init) = Some Started
   \<and> isRecording (fst (startRecording capture_failed_env bg_init)) = True
   \<and> st_isRecording (local_storage (fst (startRecording capture_failed_env bg_init))) = True"
  by (simp add: startCapture_def capture_failed_env_def good_start_env_def startRecording_def
      bg_init_def connectWebSocket_def ws_send_def broadcastToPopup_def resolve_def
      setupOffscreenDocument_def)

text \<open>C7, as the code has it: a stop command received while \<open>isRecording\<close> is false
  returns the failure \<open>Not recording\<close> and changes nothing: no \<^verbatim>\<open>STOP_CAPTURE\<close> is
  sent, and the socket and the offscreen document stay as they were.\<close>

theorem stopRecording_not_recording:
  "\<not> isRecording s \<Longrightarrow> stopRecording env s = (s, Failure ''Not recording'')"
  by (simp add: stopRecording_def)

theorem stopRecording_not_recording_witness:
  "\<not> isRecording stray_bg \<and>
   stopRecording quiet_stop_env stray_bg = (stray_bg, Failure ''Not recording'')"
proof -
  have a: "\<not> isRecording stray_bg" by (simp add: stray_bg_simp)
  from stopRecording_not_recording [OF a, of quiet_stop_env] a show ?thesis by simp
qed

text \<open>C7 as stated fails: after a start that failed at \<^verbatim>\<open>getMediaStreamId\<close> the socket
  is open and the offscreen document exists; a stop then fails with \<open>Not recording\<close>
  and resets neither, and sends no \<^verbatim>\<open>STOP_CAPTURE\<close>.\<close>

theorem stopRecording_no_reset_counterexample:
  "\<not> isRecording stray_bg \<and> ws stray_bg = Some OPEN \<and> offscreen_document stray_bg
   \<and> snd (stopRecording quiet_stop_env stray_bg) = Failure ''Not recording''
   \<and> ws (fst (stopRecording quiet_stop_env stray_bg)) = Some OPEN
   \<and> offscreen_document (fst (stopRecording quiet_stop_env stray_bg))
   \<and> STOP_CAPTURE \<notin> set (offscreen_sent (fst (stopRecording quiet_stop_env stray_bg)))"
  by (simp add: stray_bg_simp stopRecording_def)

text \<open>C8: an error event of the socket only broadcasts the error, a close event only
  broadcasts that the connection is gone (the platform having set the socket's
  \<^verbatim>\<open>readyState\<close>): neither changes \<open>isRecording\<close>, and no sequence of socket events of
  any kind does.\<close>

theorem connection_loss_keeps_recording:
  "fst (ws_event_step Ws_error (s, p)) =
       s\<lparr>popup := popup s @ [ERROR (Some ''WebSocket connection failed'')]\<rparr>
   \<and> fst (ws_event_step Ws_close (s, p)) =
       (case ws s of None \<Rightarrow> s | Some r \<Rightarrow> s\<lparr>ws := Some CLOSED\<rparr>)
         \<lparr>popup := popup s @ [CONNECTION_STATUS False]\<rparr>
   \<and> isRecording (fst (ws_event_step Ws_error (s, p))) = isRecording s
   \<and> isRecording (fst (ws_event_step Ws_close (s, p))) = isRecording s
   \<and> isRecording (fst (ws_events evs (s, p))) = isRecording s"
  by (simp add: events_isRecording broadcastToPopup_def split: option.splits)

theorem connection_loss_keeps_recording_witness:
  "isRecording recording_bg
   \<and> isRecording (fst (ws_events [Ws_error, Ws_close] (recording_bg, Some True)))"
proof -
  have a: "isRecording recording_bg" by (simp add: recording_bg_simp)
  have "isRecording (fst (ws_events [Ws_error, Ws_close] (recording_bg, Some True)))
          = isRecording recording_bg"
    using connection_loss_keeps_recording [of recording_bg "Some True" "[Ws_error, Ws_close]"]
    by blast
  with a show ?thesis by simp
qed

text \<open>C9: \<open>stopCapture\<close> is a total function, and the state after a call is the state
  before it with: the timeout that \<open>recordingInterval\<close> held removed from the pending ones,
  the recorder that \<open>mediaRecorder\<close> held made inactive and its final flush queued if it
  was active, and all four handles null; what it does to the platform is, in this order,
  clear the timeout, stop the recorder, stop the tracks, close the audio context, each only
  if its handle was set (the recorder only if active). So the timer it cancelled is no
  longer pending, the recorder it held is not active, and no timer that fires afterwards
  starts a recorder; after any run of one capture, a call leaves no timeout pending and no
  recorder active. A second call changes nothing, nor does a call with all four handles
  null, in particular in the document as loaded.\<close>

theorem stopCapture_idempotent:
  "stopCapture s =
     s\<lparr>mediaRecorder := None, mediaStream := None, audioContext := None,
       recordingInterval := None,
       timers := (case recordingInterval s of
                    None \<Rightarrow> timers s
                  | Some t \<Rightarrow> filter (\<lambda>(t', r). t' \<noteq> t) (timers s)),
       recorders := (case mediaRecorder s of
                       None \<Rightarrow> recorders s
                     | Some r \<Rightarrow>
                         if recorder_active r s
                         then (recorders s)[r := (recorders s ! r)\<lparr>rec_state := Rec_inactive\<rparr>]
                         else recorders s),
       flush_queue := flush_queue s @
                        (case mediaRecorder s of
                           None \<Rightarrow> []
                         | Some r \<Rightarrow> if recorder_active r s then [r] else []),
       actions := actions s
         @ (case recordingInterval s of None \<Rightarrow> [] | Some t \<Rightarrow> [Clear_timeout t])
         @ (case mediaRecorder s of None \<Rightarrow> []
            | Some r \<Rightarrow> if recorder_active r s then [Recorder_stop r] else [])
         @ (case mediaStream s of None \<Rightarrow> [] | Some sid \<Rightarrow> [Tracks_stop])
         @ (case audioContext s of None \<Rightarrow> [] | Some c \<Rightarrow> [Context_close])\<rparr>
   \<and> (case recordingInterval s of
         None \<Rightarrow> True
       | Some t \<Rightarrow> map_of (timers (stopCapture s)) t = None)
   \<and> (case mediaRecorder s of
         None \<Rightarrow> True
       | Some r \<Rightarrow> \<not> recorder_active r (stopCapture s))
   \<and> recorder_states (timer_fired t' (stopCapture s)) = recorder_states (stopCapture s)
   \<and> timers (stopCapture (off_run evs (fst (startCapture sid' media offscreen_init)))) = []
   \<and> active_count (stopCapture (off_run evs (fst (startCapture sid' media offscreen_init)))) = 0
   \<and> stopCapture (stopCapture s) = stopCapture s
   \<and> stopCapture offscreen_init = offscreen_init
   \<and> stopCapture (s\<lparr>mediaRecorder := None, mediaStream := None, audioContext := None,
                      recordingInterval := None\<rparr>)
       = s\<lparr>mediaRecorder := None, mediaStream := None, audioContext := None,
            recordingInterval := None\<rparr>
   \<and> actions (stopCapture s) = actions s
       @ (case recordingInterval s of None \<Rightarrow> [] | Some t \<Rightarrow> [Clear_timeout t])
       @ (case mediaRecorder s of None \<Rightarrow> []
          | Some r \<Rightarrow> if recorder_active r s then [Recorder_stop r] else [])
       @ (case mediaStream s of None \<Rightarrow> [] | Some sid \<Rightarrow> [Tracks_stop])
       @ (case audioContext s of None \<Rightarrow> [] | Some c \<Rightarrow> [Context_close])
   \<and> actions (stopCapture (stopCapture s)) = actions (stopCapture s)"
proof -
  have i: "stopCapture (stopCapture s) = stopCapture s"
    by (rule stopCapture_null) (rule stopCapture_handles)+
  have n: "stopCapture offscreen_init = offscreen_init"
    by (rule stopCapture_null) (simp_all add: offscreen_init_def)
  have z: "stopCapture (s\<lparr>mediaRecorder := None, mediaStream := None, audioContext := None,
                      recordingInterval := None\<rparr>)
       = s\<lparr>mediaRecorder := None, mediaStream := None, audioContext := None,
            recordingInterval := None\<rparr>"
    by (rule stopCapture_null) simp_all
  have tg: "case recordingInterval s of
              None \<Rightarrow> True
            | Some t \<Rightarrow> map_of (timers (stopCapture s)) t = None"
  proof (cases "recordingInterval s")
    case None
    then show ?thesis by simp
  next
    case (Some t)
    with stopCapture_timer_gone [of s t] show ?thesis by simp
  qed
  have ra: "case mediaRecorder s of
              None \<Rightarrow> True
            | Some r \<Rightarrow> \<not> recorder_active r (stopCapture s)"
  proof (cases "mediaRecorder s")
    case None
    then show ?thesis by simp
  next
    case (Some r)
    with stopCapture_not_active [of r s] show ?thesis by simp
  qed
  have c: "capture_inv (off_run evs (fst (startCapture sid' media offscreen_init)))"
    using cinv_startCapture by (rule cinv_off_run)
  have a: "actions (stopCapture (stopCapture s)) = actions (stopCapture s)"
    using i by simp
  show ?thesis
    using stopCapture_post [of s] tg ra timer_after_stop [of t' s] stop_quiet [OF c] i n z a
      stopCapture_actions [of s]
    by blast
qed

theorem stopCapture_idempotent_witness:
  "recordingInterval capturing = Some 1 \<and> mediaRecorder capturing = Some 0
   \<and> map_of (timers capturing) 1 = Some 0 \<and> recorder_active 0 capturing
   \<and> map_of (timers (stopCapture capturing)) 1 = None
   \<and> \<not> recorder_active 0 (stopCapture capturing)
   \<and> stopCapture (stopCapture capturing) = stopCapture capturing"
proof -
  have a: "recordingInterval capturing = Some 1" "mediaRecorder capturing = Some 0"
    "map_of (timers capturing) 1 = Some 0" "recorder_active 0 capturing"
    by (simp_all add: capturing_simp recorder_active_def)
  have b: "(case recordingInterval capturing of
              None \<Rightarrow> True
            | Some t \<Rightarrow> map_of (timers (stopCapture capturing)) t = None)
         \<and> (case mediaRecorder capturing of
              None \<Rightarrow> True
            | Some r \<Rightarrow> \<not> recorder_active r (stopCapture capturing))
         \<and> stopCapture (stopCapture capturing) = stopCapture capturing"
    using stopCapture_idempotent [of capturing 1 "[]" "''tab-7''" "Resolves ()"] by blast
  with a show ?thesis by simp
qed

text \<open>C10: an \<^verbatim>\<open>AUDIO_DATA\<close> message addressed to the background is sent on as one
  audio frame exactly when \<open>ws\<close> is a socket in the OPEN state, and otherwise dropped;
  either way the listener answers and nothing else changes. \<open>isRecording\<close> plays no
  part. No message of any kind makes the listener send a frame unless the socket is
  open.\<close>

theorem audio_forwarded_iff_open:
  assumes "msg_type m = ''AUDIO_DATA''" and "msg_target m = Some ''background''"
  shows "audio_listener m s =
           ((if ws s = Some OPEN
             then s\<lparr>wire := wire s @ [Audio_frame (msg_data m)
                     (case msg_format m of
                        None \<Rightarrow> ''webm''
                      | Some f \<Rightarrow> if f = [] then ''webm'' else f)]\<rparr>
             else s), True)
       \<and> audio_listener m (s\<lparr>isRecording := b\<rparr>) =
           (fst (audio_listener m s)\<lparr>isRecording := b\<rparr>, True)
       \<and> (wire (fst (audio_listener m' s)) = wire s \<or> ws s = Some OPEN)"
  using assms by (simp add: audio_listener_def ws_send_def)

theorem audio_forwarded_iff_open_witness:
  "msg_type audio_msg = ''AUDIO_DATA'' \<and> msg_target audio_msg = Some ''background''
   \<and> wire (fst (audio_listener audio_msg recording_bg))
       = [Auth_frame None, Audio_frame ''GkXfo59C'' ''webm'']
   \<and> audio_listener audio_msg stopped_bg = (stopped_bg, True)"
proof -
  have a: "msg_type audio_msg = ''AUDIO_DATA''" and b: "msg_target audio_msg = Some ''background''"
    by (simp_all add: audio_msg_def)
  from audio_forwarded_iff_open [OF a b, of recording_bg True audio_msg]
       audio_forwarded_iff_open [OF a b, of stopped_bg False audio_msg] a b
  show ?thesis
    by (simp add: recording_bg_simp stopped_bg_simp audio_msg_def)
qed

end
